theory Spec2Isabelle
  imports Main "HOL-Library.Word"
begin

unbundle bit_operations_syntax

section \<open>Shared control state of the port-mapping worker (mapport.cpp)\<close>

type_synonym flags = "32 word"

text \<open>
  Modelled from the spec: the enum \<^verbatim>\<open>MapPortProtoFlag\<close> is declared in mapport.h, which
  is not among the sources. Section 3 of the specification describes it as a bitset drawn
  from NONE, the high-priority protocol and the low-priority protocol, NONE being the
  empty set; the two protocols are distinct single bits of an unsigned int.
\<close>

definition NONE :: flags where
  "NONE = 0"

definition UPNP :: flags where
  "UPNP = 1"

definition NAT_PMP :: flags where
  "NAT_PMP = 2"

text \<open>
  The worker thread is modelled by a program counter. Each value names the source line of
  mapport.cpp at which the thread performs its next access to shared state or its next
  external call; purely local statements are executed together with a neighbouring
  access. \<open>U56\<close> to \<open>U100\<close> are inside \<^verbatim>\<open>ProcessUpnp\<close>, \<open>N135\<close> is inside the call of
  \<^verbatim>\<open>ProcessNatpmp\<close>, and \<open>Returned\<close> says that \<^verbatim>\<open>ThreadMapPort\<close> has returned (the thread
  has finished but has not been joined).
\<close>

datatype wpc =
    L124 | L125
  | U56 | U89 | U99 | U100
  | L133 | L134 | N135
  | L140 | L141 | L145
  | Returned

text \<open>
  What the worker thread has done since it was spawned, newest event first: reads of
  \<^verbatim>\<open>g_mapport_enabled_protos\<close> (with the program counter of the read), writes of
  \<^verbatim>\<open>g_mapport_current_proto\<close>, calls and returns of the two negotiation functions, and the
  result of each retry wait of line 145.
\<close>

datatype event =
    Read wpc flags
  | Publish flags
  | Call flags
  | Ret flags bool
  | Wait bool

text \<open>
  The dispatcher side is either outside every call or blocked in
  \<^verbatim>\<open>g_mapport_thread.join()\<close> at line 212.
\<close>

datatype dpc = Idle | Join212

text \<open>
  The four globals of lines 36 to 39, the locals \<open>ok\<close> of \<^verbatim>\<open>ThreadMapPort\<close> and \<open>ret\<close> of
  \<^verbatim>\<open>ProcessUpnp\<close>, and the build option \<^verbatim>\<open>USE_NATPMP\<close> (never written). The thread handle is
  \<open>None\<close> when \<^verbatim>\<open>g_mapport_thread\<close> is not joinable and holds the worker's program counter
  otherwise. \<^verbatim>\<open>USE_UPNP\<close> is defined wherever this code is compiled (line 35).
\<close>

record mapport =
  USE_NATPMP :: bool
  g_mapport_interrupt :: bool
  g_mapport_thread :: "wpc option"
  g_mapport_enabled_protos :: flags
  g_mapport_current_proto :: flags
  ok :: bool
  ret :: bool
  dispatcher :: dpc
  history :: "event list"

definition initial :: "bool \<Rightarrow> mapport" where
  "initial natpmp =
     \<lparr> USE_NATPMP = natpmp,
       g_mapport_interrupt = False,
       g_mapport_thread = None,
       g_mapport_enabled_protos = NONE,
       g_mapport_current_proto = NONE,
       ok = False,
       ret = False,
       dispatcher = Idle,
       history = [] \<rparr>"

definition joinable :: "mapport \<Rightarrow> bool" where
  "joinable s = (g_mapport_thread s \<noteq> None)"

subsection \<open>The cancellable waiter\<close>

text \<open>
  Modelled from the spec: the class \<^verbatim>\<open>CThreadInterrupt\<close> is declared in threadinterrupt.h,
  which is not among the sources. Section 4.1: \<open>signal\<close> interrupts any current or future
  wait until \<open>reset\<close> is called, \<open>reset\<close> re-arms the waiter, and a wait returns true if
  the full duration elapsed and false if it was interrupted. A wait therefore ends with
  the negation of the flag: with the flag down it ends only by running out.
\<close>

definition signal :: "mapport \<Rightarrow> mapport" where
  "signal s = s\<lparr>g_mapport_interrupt := True\<rparr>"

definition reset :: "mapport \<Rightarrow> mapport" where
  "reset s = s\<lparr>g_mapport_interrupt := False\<rparr>"

definition sleep_for :: "mapport \<Rightarrow> bool" where
  "sleep_for s = (\<not> g_mapport_interrupt s)"

section \<open>The worker loop\<close>

definition log :: "event \<Rightarrow> mapport \<Rightarrow> mapport" where
  "log e s = s\<lparr>history := e # history s\<rparr>"

definition goto :: "wpc \<Rightarrow> mapport \<Rightarrow> mapport" where
  "goto pc s = s\<lparr>g_mapport_thread := Some pc\<rparr>"

text \<open>
  Lines 113 and 126 to 127: \<^verbatim>\<open>ProcessUpnp\<close> returns \<open>ret\<close>, which is assigned to \<open>ok\<close>; when
  it is true \<^verbatim>\<open>continue\<close> jumps to the loop condition of line 145, otherwise the thread
  goes on to the low-priority protocol.
\<close>

definition ProcessUpnp_return :: "mapport \<Rightarrow> mapport" where
  "ProcessUpnp_return s =
     (let s1 = log (Ret UPNP (ret s)) (s\<lparr>ok := ret s\<rparr>)
      in if ok s1 then goto L145 s1 else goto L133 s1)"

text \<open>
  One step of the worker thread at program counter \<open>pc\<close>. The argument \<open>b\<close> is the outcome
  of the external call made by the step, where there is one: at \<open>U56\<close> whether
  \<^verbatim>\<open>UPNP_GetValidIGD\<close> returned 1, at \<open>U89\<close> whether \<^verbatim>\<open>UPNP_AddPortMapping\<close> succeeded, at
  \<open>N135\<close> the value returned by \<^verbatim>\<open>ProcessNatpmp\<close>. The body of \<^verbatim>\<open>ProcessNatpmp\<close> is not among
  the sources; \<open>r\<close> says whether that call reset the interrupt before returning, so
  that both possibilities are covered.
  \<^item> \<open>L124\<close>: \<^verbatim>\<open>ok = false\<close> (line 120) and the test of line 124.
  \<^item> \<open>L125\<close>: the write of line 125 and the entry of \<^verbatim>\<open>ProcessUpnp\<close> (line 47, \<^verbatim>\<open>ret = false\<close>).
  \<^item> \<open>U56\<close>: \<^verbatim>\<open>upnpDiscover\<close> and \<^verbatim>\<open>UPNP_GetValidIGD\<close> (lines 56 to 65); without a valid
    gateway \<^verbatim>\<open>ProcessUpnp\<close> returns \<open>ret\<close> through lines 107 to 113, with no reset.
  \<^item> \<open>U89\<close>: \<^verbatim>\<open>UPNP_AddPortMapping\<close> (lines 89 to 98); a failure leaves the loop by \<^verbatim>\<open>break\<close>.
  \<^item> \<open>U99\<close>: the re-announce wait of line 99, the condition of the inner loop.
  \<^item> \<open>U100\<close>: the reset of line 100, then lines 102 to 113 and the return of \<open>ret\<close>.
  \<^item> \<open>L133\<close>: the test of line 133, compiled only with \<^verbatim>\<open>USE_NATPMP\<close>.
  \<^item> \<open>L134\<close>: the write of line 134 and the call of line 135.
  \<^item> \<open>N135\<close>: the return of \<^verbatim>\<open>ProcessNatpmp\<close> and line 136.
  \<^item> \<open>L140\<close>: the write of line 140. \<open>L141\<close>: the test of line 141 and the return of line 142.
  \<^item> \<open>L145\<close>: the loop condition \<^verbatim>\<open>ok || g_mapport_interrupt.sleep_for(...)\<close>; \<^verbatim>\<open>continue\<close>
    arrives here with \<open>ok\<close> true, which skips the wait.
\<close>

fun ThreadMapPort :: "wpc \<Rightarrow> bool \<Rightarrow> bool \<Rightarrow> mapport \<Rightarrow> mapport" where
  "ThreadMapPort L124 b r s =
     (let e = g_mapport_enabled_protos s;
          s1 = log (Read L124 e) (s\<lparr>ok := False\<rparr>)
      in if e AND UPNP \<noteq> 0 then goto L125 s1 else goto L133 s1)"
| "ThreadMapPort L125 b r s =
     goto U56 (log (Call UPNP) (log (Publish UPNP)
       (s\<lparr>g_mapport_current_proto := UPNP, ret := False\<rparr>)))"
| "ThreadMapPort U56 b r s =
     (if b then goto U89 s else ProcessUpnp_return s)"
| "ThreadMapPort U89 b r s =
     (if b then goto U99 (s\<lparr>ret := True\<rparr>) else goto U100 (s\<lparr>ret := False\<rparr>))"
| "ThreadMapPort U99 b r s =
     (if sleep_for s then goto U89 s else goto U100 s)"
| "ThreadMapPort U100 b r s = ProcessUpnp_return (reset s)"
| "ThreadMapPort L133 b r s =
     (if USE_NATPMP s then
        (let e = g_mapport_enabled_protos s;
             s1 = log (Read L133 e) s
         in if e AND NAT_PMP \<noteq> 0 then goto L134 s1 else goto L140 s1)
      else goto L140 s)"
| "ThreadMapPort L134 b r s =
     goto N135 (log (Call NAT_PMP) (log (Publish NAT_PMP)
       (s\<lparr>g_mapport_current_proto := NAT_PMP\<rparr>)))"
| "ThreadMapPort N135 b r s =
     (let s1 = (if r then reset s else s);
          s2 = log (Ret NAT_PMP b) (s1\<lparr>ok := b\<rparr>)
      in if ok s2 then goto L145 s2 else goto L140 s2)"
| "ThreadMapPort L140 b r s =
     goto L141 (log (Publish NONE) (s\<lparr>g_mapport_current_proto := NONE\<rparr>))"
| "ThreadMapPort L141 b r s =
     (let e = g_mapport_enabled_protos s;
          s1 = log (Read L141 e) s
      in if e = NONE then goto Returned s1 else goto L145 s1)"
| "ThreadMapPort L145 b r s =
     (if ok s then goto L124 s
      else
        (let w = sleep_for s;
             s1 = log (Wait w) s
         in if w then goto L124 s1 else goto Returned s1))"
| "ThreadMapPort Returned b r s = s"

section \<open>The dispatcher\<close>

text \<open>
  A call that cannot proceed: \<open>Blocked\<close> when the step is not enabled in the state (the
  worker has no step to take, the dispatcher is busy, or the joined thread has not
  returned yet), \<open>AssertionFailed n\<close> when the \<^verbatim>\<open>assert\<close> of line \<open>n\<close> fails.
\<close>

datatype fault = Blocked | AssertionFailed nat

definition StartThreadMapPort :: "mapport \<Rightarrow> fault + mapport" where
  "StartThreadMapPort s =
     (if \<not> joinable s then
        (if g_mapport_interrupt s then Inl (AssertionFailed 151)
         else Inr (s\<lparr>g_mapport_thread := Some L124, history := []\<rparr>))
      else Inr s)"

definition InterruptMapPort :: "mapport \<Rightarrow> mapport" where
  "InterruptMapPort s =
     (let s1 = s\<lparr>g_mapport_enabled_protos := NONE\<rparr>
      in if joinable s1 then signal s1 else s1)"

text \<open>
  \<^verbatim>\<open>StopMapPort\<close> up to the call of \<^verbatim>\<open>join\<close>, which blocks until the worker has returned, and
  the rest of it (lines 212 and 213) once \<^verbatim>\<open>join\<close> returns.
\<close>

definition StopMapPort :: "mapport \<Rightarrow> mapport" where
  "StopMapPort s = (if joinable s then s\<lparr>dispatcher := Join212\<rparr> else s)"

definition StopMapPort_joined :: "mapport \<Rightarrow> mapport" where
  "StopMapPort_joined s = reset (s\<lparr>g_mapport_thread := None, dispatcher := Idle\<rparr>)"

definition DispatchMapPort :: "mapport \<Rightarrow> fault + mapport" where
  "DispatchMapPort s =
     (if g_mapport_current_proto s = NONE \<and> g_mapport_enabled_protos s = NONE then Inr s
      else if g_mapport_current_proto s = NONE \<and> g_mapport_enabled_protos s \<noteq> NONE then
        StartThreadMapPort s
      else if g_mapport_current_proto s \<noteq> NONE \<and> g_mapport_enabled_protos s = NONE then
        Inr (StopMapPort (InterruptMapPort s))
      else if g_mapport_enabled_protos s AND g_mapport_current_proto s \<noteq> 0 then Inr s
      else if \<not> joinable s then Inl (AssertionFailed 178)
      else if g_mapport_interrupt s then Inl (AssertionFailed 179)
      else Inr (signal s))"

definition MapPortProtoSetEnabled :: "flags \<Rightarrow> bool \<Rightarrow> mapport \<Rightarrow> mapport" where
  "MapPortProtoSetEnabled proto enabled s =
     (if enabled then s\<lparr>g_mapport_enabled_protos := g_mapport_enabled_protos s OR proto\<rparr>
      else s\<lparr>g_mapport_enabled_protos := g_mapport_enabled_protos s AND NOT proto\<rparr>)"

definition StartMapPort :: "bool \<Rightarrow> bool \<Rightarrow> mapport \<Rightarrow> fault + mapport" where
  "StartMapPort use_upnp use_natpmp s =
     DispatchMapPort
       (MapPortProtoSetEnabled NAT_PMP use_natpmp (MapPortProtoSetEnabled UPNP use_upnp s))"

section \<open>The interleaving of worker and dispatcher\<close>

text \<open>
  Calls of the control surface are serialized (section 4.3 of the specification): a call
  runs as one step up to a blocking \<^verbatim>\<open>join\<close>, and no other call starts while one is blocked
  there. The worker thread takes its steps in between, in any order.
\<close>

datatype label =
    Worker bool bool
  | Call_StartMapPort bool bool
  | Call_InterruptMapPort
  | Call_StopMapPort
  | Join_returns

fun step :: "label \<Rightarrow> mapport \<Rightarrow> fault + mapport" where
  "step (Worker b r) s =
     (case g_mapport_thread s of
        None \<Rightarrow> Inl Blocked
      | Some pc \<Rightarrow> if pc = Returned then Inl Blocked else Inr (ThreadMapPort pc b r s))"
| "step (Call_StartMapPort use_upnp use_natpmp) s =
     (if dispatcher s = Idle then StartMapPort use_upnp use_natpmp s else Inl Blocked)"
| "step Call_InterruptMapPort s =
     (if dispatcher s = Idle then Inr (InterruptMapPort s) else Inl Blocked)"
| "step Call_StopMapPort s =
     (if dispatcher s = Idle then Inr (StopMapPort s) else Inl Blocked)"
| "step Join_returns s =
     (if dispatcher s = Join212 \<and> g_mapport_thread s = Some Returned
      then Inr (StopMapPort_joined s) else Inl Blocked)"

fun run :: "label list \<Rightarrow> mapport \<Rightarrow> fault + mapport" where
  "run [] s = Inr s"
| "run (l # ls) s = (case step l s of Inl f \<Rightarrow> Inl f | Inr s' \<Rightarrow> run ls s')"

inductive reachable :: "mapport \<Rightarrow> bool" where
  reachable_initial: "reachable (initial natpmp)"
| reachable_step: "reachable s \<Longrightarrow> step l s = Inr s' \<Longrightarrow> reachable s'"

subsection \<open>Waiting for the worker\<close>

text \<open>
  \<^verbatim>\<open>g_mapport_thread.join()\<close> returns once \<^verbatim>\<open>ThreadMapPort\<close> has returned. \<open>join\<close> lets the worker
  take its steps, one outcome of the list for each, until then; it gives \<open>None\<close> when the
  outcomes run out before the worker has returned.
\<close>

fun join :: "(bool \<times> bool) list \<Rightarrow> mapport \<Rightarrow> mapport option" where
  "join [] s = (if g_mapport_thread s = Some Returned then Some s else None)"
| "join (e # es) s =
     (case g_mapport_thread s of
        None \<Rightarrow> None
      | Some pc \<Rightarrow>
          if pc = Returned then Some s else join es (ThreadMapPort pc (fst e) (snd e) s))"

section \<open>Properties of the worker's history\<close>

text \<open>The protocol the worker published last, NONE before its first write.\<close>

fun active_of :: "event list \<Rightarrow> flags" where
  "active_of [] = NONE"
| "active_of (Publish p # es) = p"
| "active_of (e # es) = active_of es"

text \<open>
  Every write of a protocol other than NONE comes directly after a read of the enabled
  set that contained this protocol.
\<close>

fun publishes_observed :: "event list \<Rightarrow> bool" where
  "publishes_observed [] = True"
| "publishes_observed (Publish p # es) =
     ((p = NONE \<or> (case es of Read pc e # _ \<Rightarrow> e AND p \<noteq> 0 | _ \<Rightarrow> False))
      \<and> publishes_observed es)"
| "publishes_observed (e # es) = publishes_observed es"

text \<open>
  The protocol whose negotiation call was the last to return and returned failure, when
  no retry wait has run to its end since.
\<close>

fun pending_failure :: "event list \<Rightarrow> flags option" where
  "pending_failure [] = None"
| "pending_failure (Ret p b # es) = (if b then None else Some p)"
| "pending_failure (Wait w # es) = (if w then None else pending_failure es)"
| "pending_failure (e # es) = pending_failure es"

text \<open>
  No negotiation call starts while a failure is pending, except that \<open>allowed q p\<close> lets
  protocol \<open>p\<close> start right after the failure of protocol \<open>q\<close>.
\<close>

fun backoff_respected :: "(flags \<Rightarrow> flags \<Rightarrow> bool) \<Rightarrow> event list \<Rightarrow> bool" where
  "backoff_respected allowed [] = True"
| "backoff_respected allowed (Call p # es) =
     ((case pending_failure es of None \<Rightarrow> True | Some q \<Rightarrow> allowed q p)
      \<and> backoff_respected allowed es)"
| "backoff_respected allowed (e # es) = backoff_respected allowed es"

text \<open>
  The enabled set the worker read directly before its last write of the active protocol
  (NONE when there is no such read).
\<close>

fun read_at_selection :: "event list \<Rightarrow> flags" where
  "read_at_selection [] = NONE"
| "read_at_selection (Publish p # Read pc e # es) = e"
| "read_at_selection (Publish p # es) = NONE"
| "read_at_selection (ev # es) = read_at_selection es"

text \<open>
  The histories in which every read at the top of the loop (line 124) found UPnP enabled
  and no call of \<^verbatim>\<open>ProcessUpnp\<close> returned false.
\<close>

fun read_at_top_has_upnp :: "event \<Rightarrow> bool" where
  "read_at_top_has_upnp (Read pc e) = (pc \<noteq> L124 \<or> e AND UPNP \<noteq> 0)"
| "read_at_top_has_upnp ev = True"

definition upnp_on_and_succeeding :: "event list \<Rightarrow> bool" where
  "upnp_on_and_succeeding h = (list_all read_at_top_has_upnp h \<and> Ret UPNP False \<notin> set h)"

text \<open>
  The one negotiation that may follow a failed one without a wait in between: NAT-PMP
  after UPnP.
\<close>

definition fall_through :: "flags \<Rightarrow> flags \<Rightarrow> bool" where
  "fall_through q p = (q = UPNP \<and> p = NAT_PMP)"

section \<open>Invariants\<close>

text \<open>What \<^verbatim>\<open>g_mapport_current_proto\<close> holds at each program counter of the worker.\<close>

fun current_at :: "wpc \<Rightarrow> bool \<Rightarrow> flags \<Rightarrow> bool" where
  "current_at U56 k c = (c = UPNP)"
| "current_at U89 k c = (c = UPNP)"
| "current_at U99 k c = (c = UPNP)"
| "current_at U100 k c = (c = UPNP)"
| "current_at N135 k c = (c = NAT_PMP)"
| "current_at L141 k c = (c = NONE)"
| "current_at Returned k c = (c = NONE)"
| "current_at L145 k c = (k \<or> c = NONE)"
| "current_at pc k c = True"

definition lifecycle :: "mapport \<Rightarrow> bool" where
  "lifecycle s =
     (case g_mapport_thread s of
        None \<Rightarrow>
          \<not> g_mapport_interrupt s \<and> g_mapport_current_proto s = NONE \<and> dispatcher s = Idle
      | Some pc \<Rightarrow> current_at pc (ok s) (g_mapport_current_proto s))"

text \<open>The enabled set holds no bits other than those of the two protocols.\<close>

definition valid_flags :: "flags \<Rightarrow> bool" where
  "valid_flags e = (e = NONE \<or> e = UPNP \<or> e = NAT_PMP \<or> e = UPNP OR NAT_PMP)"

text \<open>
  Before each write of a protocol the newest event is the read that found it enabled.
\<close>

fun selection_at :: "wpc \<Rightarrow> event list \<Rightarrow> bool" where
  "selection_at L125 h = (case h of Read l e # _ \<Rightarrow> e AND UPNP \<noteq> 0 | _ \<Rightarrow> False)"
| "selection_at L134 h = (case h of Read l e # _ \<Rightarrow> e AND NAT_PMP \<noteq> 0 | _ \<Rightarrow> False)"
| "selection_at pc h = True"

definition observed :: "mapport \<Rightarrow> bool" where
  "observed s =
     (publishes_observed (history s)
      \<and> g_mapport_current_proto s = active_of (history s)
      \<and> (case g_mapport_thread s of None \<Rightarrow> True | Some pc \<Rightarrow> selection_at pc (history s)))"

text \<open>
  Where the worker may be while a failure is pending; \<open>k\<close> is the local \<open>ok\<close>.
\<close>

fun backoff_at :: "wpc \<Rightarrow> bool \<Rightarrow> flags option \<Rightarrow> bool" where
  "backoff_at L124 k f = (f = None)"
| "backoff_at L125 k f = (f = None)"
| "backoff_at L145 k f = (\<not> k \<or> f = None)"
| "backoff_at L133 k f = (\<not> k \<and> (f = None \<or> f = Some UPNP))"
| "backoff_at L134 k f = (\<not> k \<and> (f = None \<or> f = Some UPNP))"
| "backoff_at L140 k f = (\<not> k)"
| "backoff_at L141 k f = (\<not> k)"
| "backoff_at pc k f = True"

definition backs_off :: "mapport \<Rightarrow> bool" where
  "backs_off s =
     (backoff_respected fall_through (history s)
      \<and> (case g_mapport_thread s of
            None \<Rightarrow> True
          | Some pc \<Rightarrow> backoff_at pc (ok s) (pending_failure (history s))))"

text \<open>
  Where the worker may be as long as UPnP was enabled at every pass and never failed.
\<close>

fun upnp_pc :: "wpc \<Rightarrow> bool \<Rightarrow> bool" where
  "upnp_pc L124 k = True"
| "upnp_pc L125 k = True"
| "upnp_pc U56 k = True"
| "upnp_pc U89 k = True"
| "upnp_pc U99 k = True"
| "upnp_pc U100 k = True"
| "upnp_pc L145 k = k"
| "upnp_pc pc k = False"

definition upnp_loop :: "mapport \<Rightarrow> bool" where
  "upnp_loop s =
     (\<not> upnp_on_and_succeeding (history s)
      \<or> (Call NAT_PMP \<notin> set (history s)
          \<and> (case g_mapport_thread s of None \<Rightarrow> True | Some pc \<Rightarrow> upnp_pc pc (ok s))))"

text \<open>
  Once the enabled set is empty, \<open>rank\<close> bounds the number of steps the worker still
  takes before it returns, provided the interrupt is signaled while the worker is inside
  \<^verbatim>\<open>ProcessUpnp\<close> before the reset of line 100.
\<close>

fun rank :: "wpc \<Rightarrow> nat" where
  "rank Returned = 0"
| "rank L141 = 1"
| "rank L140 = 2"
| "rank L133 = 3"
| "rank L124 = 4"
| "rank L145 = 5"
| "rank N135 = 6"
| "rank U100 = 6"
| "rank L134 = 7"
| "rank U99 = 7"
| "rank U89 = 8"
| "rank U56 = 9"
| "rank L125 = 10"

fun before_reset :: "wpc \<Rightarrow> bool" where
  "before_reset L125 = True"
| "before_reset U56 = True"
| "before_reset U89 = True"
| "before_reset U99 = True"
| "before_reset pc = False"

definition stopping :: "mapport \<Rightarrow> bool" where
  "stopping s =
     (g_mapport_enabled_protos s = NONE
      \<and> (case g_mapport_thread s of
            None \<Rightarrow> False
          | Some pc \<Rightarrow> \<not> before_reset pc \<or> g_mapport_interrupt s))"

definition distance :: "mapport \<Rightarrow> nat" where
  "distance s = (case g_mapport_thread s of None \<Rightarrow> 0 | Some pc \<Rightarrow> rank pc)"

section \<open>Basic facts\<close>

lemmas flag_defs = NONE_def UPNP_def NAT_PMP_def

lemmas waiter_defs = signal_def reset_def sleep_for_def

lemmas worker_defs = log_def goto_def ProcessUpnp_return_def

lemmas dispatcher_defs =
  StartThreadMapPort_def InterruptMapPort_def StopMapPort_def StopMapPort_joined_def
  DispatchMapPort_def MapPortProtoSetEnabled_def StartMapPort_def joinable_def

lemmas run_defs = initial_def flag_defs waiter_defs worker_defs dispatcher_defs

lemma run_reachable: "reachable s \<Longrightarrow> run ls s = Inr s' \<Longrightarrow> reachable s'"
proof (induction ls arbitrary: s)
  case Nil
  then show ?case by simp
next
  case (Cons l ls)
  then show ?case
    by (auto split: sum.splits intro: reachable_step)
qed

subsection \<open>The value of the active protocol follows the worker's program counter\<close>

lemma lifecycle_initial: "lifecycle (initial n)"
  by (simp add: lifecycle_def initial_def)

lemma lifecycle_worker:
  assumes "lifecycle s" "g_mapport_thread s = Some pc" "pc \<noteq> Returned"
  shows "lifecycle (ThreadMapPort pc b r s)"
  using assms
  by (cases pc) (auto simp: lifecycle_def worker_defs waiter_defs Let_def)

lemma lifecycle_StartMapPort:
  assumes "lifecycle s" "StartMapPort u n s = Inr s'"
  shows "lifecycle s'"
  using assms
  by (auto simp: lifecycle_def dispatcher_defs waiter_defs split: option.splits if_splits)

lemma lifecycle_InterruptMapPort: "lifecycle s \<Longrightarrow> lifecycle (InterruptMapPort s)"
  by (auto simp: lifecycle_def dispatcher_defs waiter_defs Let_def split: option.splits)

lemma lifecycle_StopMapPort: "lifecycle s \<Longrightarrow> lifecycle (StopMapPort s)"
  by (auto simp: lifecycle_def dispatcher_defs waiter_defs split: option.splits)

lemma lifecycle_StopMapPort_joined:
  "lifecycle s \<Longrightarrow> g_mapport_thread s = Some Returned \<Longrightarrow> lifecycle (StopMapPort_joined s)"
  by (simp add: lifecycle_def dispatcher_defs waiter_defs)

lemma lifecycle_step:
  assumes "lifecycle s" "step l s = Inr s'"
  shows "lifecycle s'"
proof (cases l)
  case (Worker b r)
  with assms show ?thesis
    by (auto split: option.splits if_splits intro: lifecycle_worker)
next
  case (Call_StartMapPort u n)
  with assms show ?thesis
    by (auto split: if_splits intro: lifecycle_StartMapPort)
next
  case Call_InterruptMapPort
  with assms show ?thesis
    by (auto split: if_splits intro: lifecycle_InterruptMapPort)
next
  case Call_StopMapPort
  with assms show ?thesis
    by (auto split: if_splits intro: lifecycle_StopMapPort)
next
  case Join_returns
  with assms show ?thesis
    by (auto split: if_splits intro: lifecycle_StopMapPort_joined)
qed

lemma reachable_lifecycle: "reachable s \<Longrightarrow> lifecycle s"
  by (induction rule: reachable.induct) (auto intro: lifecycle_initial lifecycle_step)

subsection \<open>Facts about the dispatcher\<close>

lemma DispatchMapPort_still_permitted:
  "g_mapport_current_proto s \<noteq> NONE \<Longrightarrow>
   g_mapport_enabled_protos s AND g_mapport_current_proto s \<noteq> 0 \<Longrightarrow>
   DispatchMapPort s = Inr s"
  by (auto simp: DispatchMapPort_def NONE_def)

lemma set_then_set_again:
  fixes x p q :: flags
  shows "(((x OR p) OR q) OR p) OR q = (x OR p) OR q"
    and "(((x OR p) AND NOT q) OR p) AND NOT q = (x OR p) AND NOT q"
    and "(((x AND NOT p) OR q) AND NOT p) OR q = (x AND NOT p) OR q"
    and "(((x AND NOT p) AND NOT q) AND NOT p) AND NOT q = (x AND NOT p) AND NOT q"
  by (rule bit_eqI; auto simp: bit_simps)+

lemma MapPortProtoSetEnabled_twice:
  "MapPortProtoSetEnabled q n (MapPortProtoSetEnabled p u
     (MapPortProtoSetEnabled q n (MapPortProtoSetEnabled p u s)))
   = MapPortProtoSetEnabled q n (MapPortProtoSetEnabled p u s)"
  by (cases u; cases n) (simp_all add: MapPortProtoSetEnabled_def set_then_set_again)

lemma spawn_assertion_holds:
  "reachable s \<Longrightarrow> StartThreadMapPort s \<noteq> Inl (AssertionFailed 151)"
  using reachable_lifecycle [of s]
  by (auto simp: StartThreadMapPort_def joinable_def lifecycle_def split: option.splits)

lemma switch_joinable_assertion_holds:
  "reachable s \<Longrightarrow> DispatchMapPort s \<noteq> Inl (AssertionFailed 178)"
  using reachable_lifecycle [of s]
  by (auto simp: DispatchMapPort_def StartThreadMapPort_def joinable_def lifecycle_def
      split: option.splits)

subsection \<open>The enabled set stays a combination of the two flags\<close>

lemma valid_flags_set:
  assumes "valid_flags e"
  shows "valid_flags (e OR UPNP)" "valid_flags (e AND NOT UPNP)"
    "valid_flags (e OR NAT_PMP)" "valid_flags (e AND NOT NAT_PMP)"
  using assms by (auto simp: valid_flags_def flag_defs)

lemma valid_flags_cleared:
  assumes "valid_flags e"
  shows "(e AND NOT UPNP) AND NOT NAT_PMP = NONE"
  using assms by (auto simp: valid_flags_def flag_defs)

lemma enabled_worker:
  "g_mapport_enabled_protos (ThreadMapPort pc b r s) = g_mapport_enabled_protos s"
  by (cases pc) (simp_all add: worker_defs waiter_defs Let_def)

lemma enabled_DispatchMapPort:
  assumes "DispatchMapPort s = Inr s'" "valid_flags (g_mapport_enabled_protos s)"
  shows "valid_flags (g_mapport_enabled_protos s')"
  using assms
  by (auto simp: DispatchMapPort_def StartThreadMapPort_def InterruptMapPort_def StopMapPort_def
      signal_def Let_def valid_flags_def split: if_splits)

lemma enabled_MapPortProtoSetEnabled:
  assumes "valid_flags (g_mapport_enabled_protos s)"
  shows "valid_flags (g_mapport_enabled_protos
           (MapPortProtoSetEnabled NAT_PMP n (MapPortProtoSetEnabled UPNP u s)))"
  using assms by (simp add: MapPortProtoSetEnabled_def valid_flags_set)

lemma enabled_step:
  assumes "valid_flags (g_mapport_enabled_protos s)" "step l s = Inr s'"
  shows "valid_flags (g_mapport_enabled_protos s')"
proof (cases l)
  case (Worker b r)
  with assms show ?thesis
    by (auto simp: enabled_worker split: option.splits if_splits)
next
  case (Call_StartMapPort u n)
  with assms show ?thesis
    by (auto simp: StartMapPort_def split: if_splits
        intro: enabled_DispatchMapPort enabled_MapPortProtoSetEnabled)
next
  case Call_InterruptMapPort
  with assms show ?thesis
    by (auto simp: InterruptMapPort_def signal_def Let_def valid_flags_def split: if_splits)
next
  case Call_StopMapPort
  with assms show ?thesis
    by (auto simp: StopMapPort_def split: if_splits)
next
  case Join_returns
  with assms show ?thesis
    by (auto simp: StopMapPort_joined_def reset_def split: if_splits)
qed

lemma reachable_enabled_valid: "reachable s \<Longrightarrow> valid_flags (g_mapport_enabled_protos s)"
proof (induction rule: reachable.induct)
  case (reachable_initial natpmp)
  show ?case by (simp add: initial_def valid_flags_def)
next
  case (reachable_step s l s')
  then show ?case by (auto intro: enabled_step)
qed

lemma disabling_both_clears_enabled:
  assumes "reachable s"
  shows "g_mapport_enabled_protos
           (MapPortProtoSetEnabled NAT_PMP False (MapPortProtoSetEnabled UPNP False s)) = NONE"
  using reachable_enabled_valid [OF assms]
  by (simp add: MapPortProtoSetEnabled_def valid_flags_cleared)

subsection \<open>The worker publishes what it has just read\<close>

lemma observed_initial: "observed (initial n)"
  by (simp add: observed_def initial_def)

lemma observed_worker:
  assumes "observed s" "g_mapport_thread s = Some pc"
  shows "observed (ThreadMapPort pc b r s)"
  using assms
  by (cases pc)
    (auto simp: observed_def worker_defs waiter_defs Let_def split: list.splits event.splits)

lemma observed_StartMapPort:
  assumes "observed s" "lifecycle s" "StartMapPort u n s = Inr s'"
  shows "observed s'"
  using assms
  by (auto simp: observed_def lifecycle_def dispatcher_defs waiter_defs
      split: option.splits if_splits)

lemma observed_InterruptMapPort: "observed s \<Longrightarrow> observed (InterruptMapPort s)"
  by (auto simp: observed_def dispatcher_defs waiter_defs Let_def split: option.splits)

lemma observed_StopMapPort: "observed s \<Longrightarrow> observed (StopMapPort s)"
  by (auto simp: observed_def dispatcher_defs waiter_defs split: option.splits)

lemma observed_StopMapPort_joined: "observed s \<Longrightarrow> observed (StopMapPort_joined s)"
  by (simp add: observed_def dispatcher_defs waiter_defs)

lemma observed_step:
  assumes "observed s" "lifecycle s" "step l s = Inr s'"
  shows "observed s'"
proof (cases l)
  case (Worker b r)
  with assms show ?thesis
    by (auto split: option.splits if_splits intro: observed_worker)
next
  case (Call_StartMapPort u n)
  with assms show ?thesis
    by (auto split: if_splits intro: observed_StartMapPort)
next
  case Call_InterruptMapPort
  with assms show ?thesis
    by (auto split: if_splits intro: observed_InterruptMapPort)
next
  case Call_StopMapPort
  with assms show ?thesis
    by (auto split: if_splits intro: observed_StopMapPort)
next
  case Join_returns
  with assms show ?thesis
    by (auto split: if_splits intro: observed_StopMapPort_joined)
qed

lemma reachable_observed: "reachable s \<Longrightarrow> observed s"
proof (induction rule: reachable.induct)
  case (reachable_initial natpmp)
  show ?case by (rule observed_initial)
next
  case (reachable_step s l s')
  then show ?case
    using observed_step reachable_lifecycle by blast
qed

lemma selection_was_read:
  "publishes_observed h \<Longrightarrow> active_of h = NONE \<or> active_of h AND read_at_selection h \<noteq> 0"
  by (induction h rule: read_at_selection.induct) (auto simp: and.commute)

subsection \<open>Failures and retry waits\<close>

lemma backs_off_initial: "backs_off (initial n)"
  by (simp add: backs_off_def initial_def)

lemma backs_off_worker:
  assumes "backs_off s" "g_mapport_thread s = Some pc"
  shows "backs_off (ThreadMapPort pc b r s)"
  using assms
  by (cases pc)
    (auto simp: backs_off_def fall_through_def worker_defs waiter_defs Let_def)

lemma backs_off_StartMapPort:
  assumes "backs_off s" "StartMapPort u n s = Inr s'"
  shows "backs_off s'"
  using assms
  by (auto simp: backs_off_def dispatcher_defs waiter_defs split: option.splits if_splits)

lemma backs_off_InterruptMapPort: "backs_off s \<Longrightarrow> backs_off (InterruptMapPort s)"
  by (auto simp: backs_off_def dispatcher_defs waiter_defs Let_def split: option.splits)

lemma backs_off_StopMapPort: "backs_off s \<Longrightarrow> backs_off (StopMapPort s)"
  by (auto simp: backs_off_def dispatcher_defs waiter_defs split: option.splits)

lemma backs_off_StopMapPort_joined: "backs_off s \<Longrightarrow> backs_off (StopMapPort_joined s)"
  by (simp add: backs_off_def dispatcher_defs waiter_defs)

lemma backs_off_step:
  assumes "backs_off s" "step l s = Inr s'"
  shows "backs_off s'"
proof (cases l)
  case (Worker b r)
  with assms show ?thesis
    by (auto split: option.splits if_splits intro: backs_off_worker)
next
  case (Call_StartMapPort u n)
  with assms show ?thesis
    by (auto split: if_splits intro: backs_off_StartMapPort)
next
  case Call_InterruptMapPort
  with assms show ?thesis
    by (auto split: if_splits intro: backs_off_InterruptMapPort)
next
  case Call_StopMapPort
  with assms show ?thesis
    by (auto split: if_splits intro: backs_off_StopMapPort)
next
  case Join_returns
  with assms show ?thesis
    by (auto split: if_splits intro: backs_off_StopMapPort_joined)
qed

lemma reachable_backs_off: "reachable s \<Longrightarrow> backs_off s"
  by (induction rule: reachable.induct) (auto intro: backs_off_initial backs_off_step)

subsection \<open>UPnP comes first\<close>

lemma upnp_loop_initial: "upnp_loop (initial n)"
  by (simp add: upnp_loop_def initial_def)

lemma UPNP_not_NAT_PMP: "UPNP \<noteq> NAT_PMP" "NAT_PMP \<noteq> UPNP"
  by (simp_all add: flag_defs)

lemma upnp_loop_worker:
  assumes "upnp_loop s" "g_mapport_thread s = Some pc"
  shows "upnp_loop (ThreadMapPort pc b r s)"
  using assms
  by (cases pc)
    (auto simp: upnp_loop_def upnp_on_and_succeeding_def worker_defs waiter_defs Let_def
      UPNP_not_NAT_PMP)

lemma upnp_loop_StartMapPort:
  assumes "upnp_loop s" "StartMapPort u n s = Inr s'"
  shows "upnp_loop s'"
  using assms
  by (auto simp: upnp_loop_def upnp_on_and_succeeding_def dispatcher_defs waiter_defs
      split: option.splits if_splits)

lemma upnp_loop_InterruptMapPort: "upnp_loop s \<Longrightarrow> upnp_loop (InterruptMapPort s)"
  by (auto simp: upnp_loop_def dispatcher_defs waiter_defs Let_def split: option.splits)

lemma upnp_loop_StopMapPort: "upnp_loop s \<Longrightarrow> upnp_loop (StopMapPort s)"
  by (auto simp: upnp_loop_def dispatcher_defs waiter_defs split: option.splits)

lemma upnp_loop_StopMapPort_joined: "upnp_loop s \<Longrightarrow> upnp_loop (StopMapPort_joined s)"
  by (auto simp: upnp_loop_def dispatcher_defs waiter_defs)

lemma upnp_loop_step:
  assumes "upnp_loop s" "step l s = Inr s'"
  shows "upnp_loop s'"
proof (cases l)
  case (Worker b r)
  with assms show ?thesis
    by (auto split: option.splits if_splits intro: upnp_loop_worker)
next
  case (Call_StartMapPort u n)
  with assms show ?thesis
    by (auto split: if_splits intro: upnp_loop_StartMapPort)
next
  case Call_InterruptMapPort
  with assms show ?thesis
    by (auto split: if_splits intro: upnp_loop_InterruptMapPort)
next
  case Call_StopMapPort
  with assms show ?thesis
    by (auto split: if_splits intro: upnp_loop_StopMapPort)
next
  case Join_returns
  with assms show ?thesis
    by (auto split: if_splits intro: upnp_loop_StopMapPort_joined)
qed

lemma reachable_upnp_loop: "reachable s \<Longrightarrow> upnp_loop s"
  by (induction rule: reachable.induct) (auto intro: upnp_loop_initial upnp_loop_step)

lemma upnp_first:
  assumes "g_mapport_thread s = Some L124" "g_mapport_enabled_protos s AND UPNP \<noteq> 0"
  shows "run [Worker b1 r1, Worker b2 r2] s =
           Inr (s\<lparr>g_mapport_thread := Some U56, g_mapport_current_proto := UPNP,
                  ok := False, ret := False,
                  history := Call UPNP # Publish UPNP # Read L124 (g_mapport_enabled_protos s)
                               # history s\<rparr>)"
  using assms by (simp add: worker_defs Let_def)

lemma upnp_success_continues:
  assumes "g_mapport_thread s = Some U100" "ret s"
  shows "run [Worker b1 r1, Worker b2 r2, Worker b3 r3] s =
           Inr (s\<lparr>g_mapport_thread :=
                    Some (if g_mapport_enabled_protos s AND UPNP \<noteq> 0 then L125 else L133),
                  g_mapport_interrupt := False, ok := False,
                  history := Read L124 (g_mapport_enabled_protos s) # Ret UPNP True # history s\<rparr>)"
  using assms by (simp add: worker_defs waiter_defs Let_def)

subsection \<open>Joining the worker once nothing is enabled\<close>

lemma rank_le_10: "rank pc \<le> 10"
  by (cases pc) simp_all

lemma stopping_worker:
  assumes "stopping s" "g_mapport_thread s = Some pc" "pc \<noteq> Returned"
  shows "stopping (ThreadMapPort pc b r s)"
    and "distance (ThreadMapPort pc b r s) < rank pc"
    and "dispatcher (ThreadMapPort pc b r s) = dispatcher s"
  using assms
  by (cases pc; simp add: stopping_def distance_def worker_defs waiter_defs flag_defs Let_def)+

lemma join_returns:
  "stopping s \<Longrightarrow> distance s \<le> length es \<Longrightarrow>
   \<exists>s'. join es s = Some s' \<and> g_mapport_thread s' = Some Returned
        \<and> dispatcher s' = dispatcher s"
proof (induction es arbitrary: s)
  case Nil
  then obtain pc where pc: "g_mapport_thread s = Some pc" "rank pc = 0"
    by (auto simp: stopping_def distance_def split: option.splits)
  then have "pc = Returned"
    by (cases pc) simp_all
  with pc show ?case by simp
next
  case (Cons e es)
  from Cons.prems obtain pc where pc: "g_mapport_thread s = Some pc"
    by (auto simp: stopping_def split: option.splits)
  show ?case
  proof (cases "pc = Returned")
    case True
    with pc show ?thesis by simp
  next
    case False
    let ?s1 = "ThreadMapPort pc (fst e) (snd e) s"
    note w = stopping_worker [OF Cons.prems(1) pc False, of "fst e" "snd e"]
    have "rank pc \<le> Suc (length es)"
      using Cons.prems(2) pc by (simp add: distance_def)
    with w(2) have "distance ?s1 \<le> length es"
      by simp
    from Cons.IH [OF w(1) this] w(3) pc False show ?thesis
      by simp
  qed
qed

subsection \<open>The two exits of the worker loop\<close>

lemma worker_exits:
  assumes "pc \<noteq> Returned"
  shows "g_mapport_thread (ThreadMapPort pc b r s) = Some Returned \<longleftrightarrow>
           (pc = L141 \<and> g_mapport_enabled_protos s = NONE)
           \<or> (pc = L145 \<and> \<not> ok s \<and> g_mapport_interrupt s)"
  using assms by (cases pc) (auto simp: worker_defs waiter_defs Let_def)

section \<open>The claims\<close>

text \<open>
  C1. In every reachable state the active protocol is NONE or a protocol contained in the
  enabled set that the worker read directly before it selected that protocol: the value
  of \<^verbatim>\<open>g_mapport_current_proto\<close> is the one the worker wrote last, and every write of a
  protocol other than NONE comes directly after a read of \<^verbatim>\<open>g_mapport_enabled_protos\<close> that
  contained it.
\<close>

theorem active_protocol_was_observed_enabled:
  assumes "reachable s"
  shows "(g_mapport_current_proto s = NONE
          \<or> g_mapport_current_proto s AND read_at_selection (history s) \<noteq> 0)
         \<and> g_mapport_current_proto s = active_of (history s)
         \<and> publishes_observed (history s)"
  using reachable_observed [OF assms] selection_was_read [of "history s"]
  by (simp add: observed_def)

theorem active_protocol_was_observed_enabled_witness:
  "case run [Call_StartMapPort True True, Worker True False, Worker True False] (initial True) of
     Inl f \<Rightarrow> False
   | Inr s \<Rightarrow> reachable s \<and> g_mapport_current_proto s = UPNP
              \<and> read_at_selection (history s) = UPNP OR NAT_PMP
              \<and> g_mapport_current_proto s AND read_at_selection (history s) \<noteq> 0"
proof -
  obtain s where r:
    "run [Call_StartMapPort True True, Worker True False, Worker True False] (initial True)
     = Inr s"
    by (simp add: run_defs)
  have reach: "reachable s"
    using run_reachable [OF reachable_initial r] .
  have facts: "g_mapport_current_proto s = UPNP" "read_at_selection (history s) = UPNP OR NAT_PMP"
    using r by (auto simp: run_defs)
  show ?thesis
    using active_protocol_was_observed_enabled [OF reach] reach facts r
    by (simp add: flag_defs)
qed

text \<open>
  C2. From the top of the loop with UPnP in the enabled set, the next two steps of the
  worker select UPnP and enter \<^verbatim>\<open>ProcessUpnp\<close>, whatever the NAT-PMP bit. When
  \<^verbatim>\<open>ProcessUpnp\<close> returns true, the next three steps return from it, pass the loop
  condition without a retry wait and read the enabled set again, with no call of NAT-PMP
  in between. Consequently, in every reachable state whose history has UPnP enabled at
  each pass and no failed UPnP negotiation, NAT-PMP has not been called.
\<close>

theorem upnp_has_priority:
  "(g_mapport_thread s = Some L124 \<longrightarrow> g_mapport_enabled_protos s AND UPNP \<noteq> 0 \<longrightarrow>
      run [Worker b1 r1, Worker b2 r2] s =
        Inr (s\<lparr>g_mapport_thread := Some U56, g_mapport_current_proto := UPNP,
               ok := False, ret := False,
               history := Call UPNP # Publish UPNP # Read L124 (g_mapport_enabled_protos s)
                            # history s\<rparr>))
   \<and> (g_mapport_thread t = Some U100 \<longrightarrow> ret t \<longrightarrow>
      run [Worker b1 r1, Worker b2 r2, Worker b3 r3] t =
        Inr (t\<lparr>g_mapport_thread :=
                 Some (if g_mapport_enabled_protos t AND UPNP \<noteq> 0 then L125 else L133),
               g_mapport_interrupt := False, ok := False,
               history := Read L124 (g_mapport_enabled_protos t) # Ret UPNP True # history t\<rparr>))
   \<and> (reachable u \<longrightarrow> upnp_on_and_succeeding (history u) \<longrightarrow>
      Call NAT_PMP \<notin> set (history u))"
  using upnp_first [of s b1 r1 b2 r2] upnp_success_continues [of t b1 r1 b2 r2 b3 r3]
    reachable_upnp_loop [of u]
  by (simp add: upnp_loop_def)

theorem upnp_has_priority_witness:
  "run [Worker True False, Worker True False]
     ((initial True)\<lparr>g_mapport_thread := Some L124, g_mapport_enabled_protos := 3\<rparr>)
   = Inr ((initial True)\<lparr>g_mapport_thread := Some U56, g_mapport_enabled_protos := 3,
            g_mapport_current_proto := UPNP,
            history := [Call UPNP, Publish UPNP, Read L124 3]\<rparr>)
   \<and> run [Worker True False, Worker True False, Worker True False]
     ((initial True)\<lparr>g_mapport_thread := Some U100, g_mapport_enabled_protos := 3,
                       g_mapport_interrupt := True, ret := True\<rparr>)
   = Inr ((initial True)\<lparr>g_mapport_thread := Some L125, g_mapport_enabled_protos := 3,
            ret := True, history := [Read L124 3, Ret UPNP True]\<rparr>)
   \<and> (case run [Call_StartMapPort True False, Worker True False, Worker True False,
                 Call_StartMapPort False True, Call_StartMapPort True True,
                 Worker True False, Worker True False, Worker True False, Worker True False,
                 Worker True False, Worker True False, Worker True False] (initial True) of
        Inl f \<Rightarrow> False
      | Inr u \<Rightarrow> reachable u \<and> upnp_on_and_succeeding (history u)
                 \<and> Ret UPNP True \<in> set (history u)
                 \<and> g_mapport_enabled_protos u = UPNP OR NAT_PMP
                 \<and> Call NAT_PMP \<notin> set (history u))"
proof -
  let ?s = "(initial True)\<lparr>g_mapport_thread := Some L124, g_mapport_enabled_protos := 3\<rparr>"
  let ?t = "(initial True)\<lparr>g_mapport_thread := Some U100, g_mapport_enabled_protos := 3,
                            g_mapport_interrupt := True, ret := True\<rparr>"
  obtain u where r:
    "run [Call_StartMapPort True False, Worker True False, Worker True False,
          Call_StartMapPort False True, Call_StartMapPort True True,
          Worker True False, Worker True False, Worker True False, Worker True False,
          Worker True False, Worker True False, Worker True False] (initial True) = Inr u"
    by (simp add: run_defs)
  have reach: "reachable u"
    using run_reachable [OF reachable_initial r] .
  have facts: "upnp_on_and_succeeding (history u)" "Ret UPNP True \<in> set (history u)"
    "g_mapport_enabled_protos u = UPNP OR NAT_PMP"
    using r by (auto simp: run_defs upnp_on_and_succeeding_def)
  show ?thesis
    using upnp_has_priority [where s = ?s and t = ?t and u = u and ?b1.0 = True and ?r1.0 = False
        and ?b2.0 = True and ?r2.0 = False and ?b3.0 = True and ?r3.0 = False] reach facts r
    by (simp add: initial_def flag_defs)
qed

text \<open>
  C3. Claimed: \<^verbatim>\<open>InterruptMapPort\<close> leaves the enabled set unchanged. It does not: line 203
  assigns NONE to \<^verbatim>\<open>g_mapport_enabled_protos\<close>. After \<^verbatim>\<open>StartMapPort(true, false)\<close> the enabled set
  is UPNP, and a call of \<^verbatim>\<open>InterruptMapPort\<close> changes it.
\<close>

theorem InterruptMapPort_keeps_enabled_counterexample:
  "case run [Call_StartMapPort True False] (initial True) of
     Inl f \<Rightarrow> False
   | Inr s \<Rightarrow> g_mapport_enabled_protos s = UPNP
              \<and> g_mapport_enabled_protos (InterruptMapPort s) \<noteq> g_mapport_enabled_protos s"
  by (simp add: run_defs)

text \<open>
  C3, as amended. \<^verbatim>\<open>InterruptMapPort\<close> sets the enabled set to NONE and signals the interrupt
  when the worker thread is joinable; the active protocol, the thread handle and the
  dispatcher are left as they were.
\<close>

theorem InterruptMapPort_clears_enabled:
  "g_mapport_enabled_protos (InterruptMapPort s) = NONE
   \<and> g_mapport_interrupt (InterruptMapPort s) = (g_mapport_interrupt s \<or> joinable s)
   \<and> g_mapport_current_proto (InterruptMapPort s) = g_mapport_current_proto s
   \<and> g_mapport_thread (InterruptMapPort s) = g_mapport_thread s
   \<and> dispatcher (InterruptMapPort s) = dispatcher s"
  by (simp add: InterruptMapPort_def joinable_def signal_def Let_def)

text \<open>
  C4. Claimed: after a negotiation call has returned failure the worker attempts no
  other negotiation in the same cycle and waits out the retry period first. With both
  protocols enabled and the gateway discovery of UPnP failing, the worker calls NAT-PMP
  next, with no wait in between.
\<close>

theorem failure_without_backoff_counterexample:
  "case run [Call_StartMapPort True True, Worker True False, Worker True False,
             Worker False False, Worker True False, Worker True False] (initial True) of
     Inl f \<Rightarrow> False
   | Inr s \<Rightarrow> history s = [Call NAT_PMP, Publish NAT_PMP, Read L133 3, Ret UPNP False,
                            Call UPNP, Publish UPNP, Read L124 3]
              \<and> \<not> backoff_respected (\<lambda>q p. False) (history s)"
  by (simp add: run_defs)

text \<open>
  C4, as amended. After a negotiation call has returned failure, the next negotiation
  call of the worker, if there is one, is either NAT-PMP attempted at once in the same
  cycle after a failed UPnP call, or comes after a retry wait that has run to its end.
\<close>

theorem backoff_except_fall_through:
  assumes "reachable s"
  shows "backoff_respected fall_through (history s)"
  using reachable_backs_off [OF assms] by (simp add: backs_off_def)

theorem backoff_except_fall_through_witness:
  "case run [Call_StartMapPort True True, Worker True False, Worker True False,
             Worker False False, Worker True False, Worker True False, Worker False False,
             Worker True False, Worker True False, Worker True False, Worker True False,
             Worker True False] (initial True) of
     Inl f \<Rightarrow> False
   | Inr s \<Rightarrow> reachable s
              \<and> history s = [Call UPNP, Publish UPNP, Read L124 3, Wait True, Read L141 3,
                   Publish NONE, Ret NAT_PMP False, Call NAT_PMP, Publish NAT_PMP, Read L133 3,
                   Ret UPNP False, Call UPNP, Publish UPNP, Read L124 3]
              \<and> backoff_respected fall_through (history s)"
proof -
  obtain s where r:
    "run [Call_StartMapPort True True, Worker True False, Worker True False,
          Worker False False, Worker True False, Worker True False, Worker False False,
          Worker True False, Worker True False, Worker True False, Worker True False,
          Worker True False] (initial True) = Inr s"
    by (simp add: run_defs)
  have reach: "reachable s"
    using run_reachable [OF reachable_initial r] .
  have h: "history s = [Call UPNP, Publish UPNP, Read L124 3, Wait True, Read L141 3,
                   Publish NONE, Ret NAT_PMP False, Call NAT_PMP, Publish NAT_PMP, Read L133 3,
                   Ret UPNP False, Call UPNP, Publish UPNP, Read L124 3]"
    using r by (auto simp: run_defs)
  show ?thesis
    using backoff_except_fall_through [OF reach] reach h r
    by simp
qed




text \<open>
  C6. When the active protocol is not NONE and the newly computed enabled set is NONE,
  \<^verbatim>\<open>StartMapPort\<close> signals the interrupt and blocks in \<^verbatim>\<open>join\<close>; the worker then returns
  within ten steps, whatever its external calls do; \<^verbatim>\<open>join\<close> returns and the interrupt is
  reset, which leaves the thread handle not joinable and the dispatcher free for a later
  spawn.
\<close>

theorem disabling_all_interrupts_and_joins:
  assumes "reachable s" "dispatcher s = Idle" "g_mapport_current_proto s \<noteq> NONE"
    and "g_mapport_enabled_protos
           (MapPortProtoSetEnabled NAT_PMP use_natpmp (MapPortProtoSetEnabled UPNP use_upnp s))
         = NONE"
    and "10 \<le> length es"
  shows "\<exists>s1 s2.
           step (Call_StartMapPort use_upnp use_natpmp) s = Inr s1
           \<and> s1 = s\<lparr>g_mapport_enabled_protos := NONE, g_mapport_interrupt := True,
                     dispatcher := Join212\<rparr>
           \<and> join es s1 = Some s2 \<and> g_mapport_thread s2 = Some Returned
           \<and> step Join_returns s2 = Inr (StopMapPort_joined s2)
           \<and> \<not> g_mapport_interrupt (StopMapPort_joined s2)
           \<and> \<not> joinable (StopMapPort_joined s2)
           \<and> dispatcher (StopMapPort_joined s2) = Idle"
proof -
  let ?t = "MapPortProtoSetEnabled NAT_PMP use_natpmp (MapPortProtoSetEnabled UPNP use_upnp s)"
  let ?s1 = "s\<lparr>g_mapport_enabled_protos := NONE, g_mapport_interrupt := True,
               dispatcher := Join212\<rparr>"
  have t: "?t = s\<lparr>g_mapport_enabled_protos := NONE\<rparr>"
    using assms(4)
    by (cases use_upnp; cases use_natpmp) (simp_all add: MapPortProtoSetEnabled_def)
  obtain pc where pc: "g_mapport_thread s = Some pc"
    using reachable_lifecycle [OF assms(1)] assms(3)
    by (auto simp: lifecycle_def split: option.splits)
  have first: "step (Call_StartMapPort use_upnp use_natpmp) s = Inr ?s1"
    using assms(2,3) pc
    by (simp add: StartMapPort_def t DispatchMapPort_def InterruptMapPort_def StopMapPort_def
        joinable_def signal_def Let_def)
  have stop: "stopping ?s1"
    using pc by (simp add: stopping_def)
  have "distance ?s1 \<le> length es"
    using pc rank_le_10 [of pc] assms(5) by (simp add: distance_def)
  from join_returns [OF stop this] obtain s2 where
    s2: "join es ?s1 = Some s2" "g_mapport_thread s2 = Some Returned" "dispatcher s2 = Join212"
    by auto
  have "step Join_returns s2 = Inr (StopMapPort_joined s2)"
    using s2 by simp
  moreover have "\<not> g_mapport_interrupt (StopMapPort_joined s2)"
    "\<not> joinable (StopMapPort_joined s2)" "dispatcher (StopMapPort_joined s2) = Idle"
    by (simp_all add: StopMapPort_joined_def reset_def joinable_def)
  ultimately show ?thesis
    using first s2 by blast
qed

theorem disabling_all_interrupts_and_joins_witness:
  "case run [Call_StartMapPort True False, Worker True False, Worker True False] (initial True) of
     Inl f \<Rightarrow> False
   | Inr s \<Rightarrow> reachable s \<and> g_mapport_current_proto s = UPNP
       \<and> (\<exists>s2. step (Call_StartMapPort False False) s =
                  Inr (s\<lparr>g_mapport_enabled_protos := NONE, g_mapport_interrupt := True,
                         dispatcher := Join212\<rparr>)
              \<and> join (replicate 10 (True, False))
                   (s\<lparr>g_mapport_enabled_protos := NONE, g_mapport_interrupt := True,
                      dispatcher := Join212\<rparr>) = Some s2
              \<and> g_mapport_thread s2 = Some Returned
              \<and> step Join_returns s2 = Inr (StopMapPort_joined s2)
              \<and> \<not> g_mapport_interrupt (StopMapPort_joined s2)
              \<and> \<not> joinable (StopMapPort_joined s2))"
proof -
  obtain s where r:
    "run [Call_StartMapPort True False, Worker True False, Worker True False] (initial True)
     = Inr s"
    by (simp add: run_defs)
  have reach: "reachable s"
    using run_reachable [OF reachable_initial r] .
  have facts: "dispatcher s = Idle" "g_mapport_current_proto s = UPNP"
    using r by (auto simp: run_defs)
  have active: "g_mapport_current_proto s \<noteq> NONE"
    using facts by (simp add: flag_defs)
  have len: "10 \<le> length (replicate 10 (True, False))"
    by simp
  from disabling_all_interrupts_and_joins
    [OF reach facts(1) active disabling_both_clears_enabled [OF reach] len]
  obtain s2 where
    "step (Call_StartMapPort False False) s =
       Inr (s\<lparr>g_mapport_enabled_protos := NONE, g_mapport_interrupt := True,
              dispatcher := Join212\<rparr>)"
    "join (replicate 10 (True, False))
       (s\<lparr>g_mapport_enabled_protos := NONE, g_mapport_interrupt := True,
          dispatcher := Join212\<rparr>) = Some s2"
    "g_mapport_thread s2 = Some Returned"
    "step Join_returns s2 = Inr (StopMapPort_joined s2)"
    "\<not> g_mapport_interrupt (StopMapPort_joined s2)"
    "\<not> joinable (StopMapPort_joined s2)"
    by blast
  with reach facts(2) show ?thesis
    unfolding r sum.case by blast
qed

text \<open>
  C7. The worker loop must not return while a protocol is enabled, but it can. In the
  run below only \<^verbatim>\<open>StartMapPort\<close> is called: UPnP is enabled and the worker enters
  \<^verbatim>\<open>ProcessUpnp\<close>; the configuration is switched to NAT-PMP only, which signals the
  interrupt (line 182), and back to UPnP only, which returns at line 175. The gateway
  discovery then fails, so \<^verbatim>\<open>ProcessUpnp\<close> leaves through lines 106 to 111 without the reset
  that line 100 performs on the other path, and the retry wait of line 145 returns false
  at once on the signal left over. The worker has returned with UPnP enabled, and a
  further \<^verbatim>\<open>StartMapPort(true, false)\<close> does not spawn it again, since the finished thread
  is still joinable.
\<close>

theorem stale_signal_ends_worker:
  "case run [Call_StartMapPort True False, Worker True False, Worker True False,
             Call_StartMapPort False True, Call_StartMapPort True False,
             Worker False False, Worker True False, Worker True False, Worker True False,
             Worker True False] (initial True) of
     Inl f \<Rightarrow> False
   | Inr s \<Rightarrow> g_mapport_thread s = Some Returned \<and> g_mapport_enabled_protos s = UPNP
              \<and> g_mapport_enabled_protos s \<noteq> NONE
              \<and> g_mapport_interrupt s
              \<and> step (Call_StartMapPort True False) s = Inr s"
  by (simp add: run_defs)

text \<open>
  C8. If the active protocol is not NONE and the newly computed enabled set still
  contains it, \<^verbatim>\<open>StartMapPort\<close> changes nothing but the enabled set: no thread is spawned,
  the interrupt is not signaled and nothing is joined. Repeating the call leaves the
  state as it is.
\<close>

theorem still_permitted_protocol_is_left_alone:
  assumes "g_mapport_current_proto s \<noteq> NONE"
    and "s' = MapPortProtoSetEnabled NAT_PMP use_natpmp (MapPortProtoSetEnabled UPNP use_upnp s)"
    and "g_mapport_enabled_protos s' AND g_mapport_current_proto s \<noteq> 0"
  shows "StartMapPort use_upnp use_natpmp s = Inr s'
         \<and> s' = s\<lparr>g_mapport_enabled_protos := g_mapport_enabled_protos s'\<rparr>
         \<and> StartMapPort use_upnp use_natpmp s' = Inr s'"
proof -
  have frame: "s' = s\<lparr>g_mapport_enabled_protos := g_mapport_enabled_protos s'\<rparr>"
    unfolding assms(2)
    by (cases use_upnp; cases use_natpmp) (simp_all add: MapPortProtoSetEnabled_def)
  have cur: "g_mapport_current_proto s' = g_mapport_current_proto s"
    by (subst frame) simp
  have noop: "DispatchMapPort s' = Inr s'"
    using assms(1,3) cur by (simp add: DispatchMapPort_still_permitted)
  have first: "StartMapPort use_upnp use_natpmp s = Inr s'"
    using noop by (simp add: StartMapPort_def assms(2))
  have again: "StartMapPort use_upnp use_natpmp s' = Inr s'"
    using noop MapPortProtoSetEnabled_twice [of NAT_PMP use_natpmp UPNP use_upnp s]
    by (simp add: StartMapPort_def assms(2))
  from first frame again show ?thesis by blast
qed

theorem still_permitted_protocol_is_left_alone_witness:
  "StartMapPort True True
     ((initial True)\<lparr>g_mapport_thread := Some U56, g_mapport_enabled_protos := UPNP,
                       g_mapport_current_proto := UPNP\<rparr>)
   = Inr ((initial True)\<lparr>g_mapport_thread := Some U56, g_mapport_enabled_protos := 3,
                            g_mapport_current_proto := UPNP\<rparr>)"
proof -
  let ?s = "(initial True)\<lparr>g_mapport_thread := Some U56, g_mapport_enabled_protos := UPNP,
                              g_mapport_current_proto := UPNP\<rparr>"
  let ?s' = "MapPortProtoSetEnabled NAT_PMP True (MapPortProtoSetEnabled UPNP True ?s)"
  have active: "g_mapport_current_proto ?s \<noteq> NONE"
    by (simp add: flag_defs)
  have permitted: "g_mapport_enabled_protos ?s' AND g_mapport_current_proto ?s \<noteq> 0"
    by (simp add: MapPortProtoSetEnabled_def flag_defs)
  show ?thesis
    using still_permitted_protocol_is_left_alone [OF active refl permitted]
    by (simp add: MapPortProtoSetEnabled_def flag_defs initial_def)
qed

text \<open>
  C9. The assertion of line 179 can fail although the calls are serialized. After
  \<^verbatim>\<open>StartMapPort(true, false)\<close> the worker enters \<^verbatim>\<open>ProcessUpnp\<close>; \<^verbatim>\<open>StartMapPort(false, true)\<close>
  takes the protocol-switch branch and signals the interrupt; while the worker is still
  in the gateway discovery, a second \<^verbatim>\<open>StartMapPort(false, true)\<close> takes the same branch
  with the interrupt still signaled.
\<close>

theorem switch_assertion_fails:
  "run [Call_StartMapPort True False, Worker True False, Worker True False,
        Call_StartMapPort False True, Call_StartMapPort False True] (initial True)
   = Inl (AssertionFailed 179)"
  by (simp add: run_defs)

text \<open>
  C10. On every path by which the worker loop terminates, the active protocol has been
  set to NONE before the return: in every reachable state in which \<^verbatim>\<open>ThreadMapPort\<close> has
  returned, \<^verbatim>\<open>g_mapport_current_proto\<close> is NONE.
\<close>

theorem stopped_worker_has_no_active_protocol:
  assumes "reachable s" "g_mapport_thread s = Some Returned"
  shows "g_mapport_current_proto s = NONE"
  using reachable_lifecycle [OF assms(1)] assms(2)
  by (simp add: lifecycle_def)

theorem stopped_worker_has_no_active_protocol_witness:
  "case run [Call_StartMapPort True False, Worker True False, Worker True False,
             Worker False False, Worker True False, Worker True False, Worker True False,
             Call_InterruptMapPort, Worker True False] (initial True) of
     Inl f \<Rightarrow> False
   | Inr s \<Rightarrow> reachable s \<and> g_mapport_thread s = Some Returned
              \<and> g_mapport_current_proto s = NONE"
proof -
  obtain s where r:
    "run [Call_StartMapPort True False, Worker True False, Worker True False,
          Worker False False, Worker True False, Worker True False, Worker True False,
          Call_InterruptMapPort, Worker True False] (initial True) = Inr s"
    by (simp add: run_defs)
  have reach: "reachable s"
    using run_reachable [OF reachable_initial r] .
  have stopped: "g_mapport_thread s = Some Returned"
    using r by (auto simp: run_defs)
  show ?thesis
    using stopped_worker_has_no_active_protocol [OF reach stopped] reach stopped r
    by simp
qed

end
